theory Spec2Isabelle
  imports Main "HOL-Library.Sublist"
begin

section \<open>Python strings\<close>

text \<open>
  A Python \<open>str\<close> is a sequence of Unicode code points, and \<open>len\<close>, indexing,
  \<open>strip\<close>, \<open>split\<close> and \<open>replace\<close> all work on code points. A string is
  therefore a list of code points, each a natural number; \<open>lit\<close> turns an
  ASCII literal into such a list.
\<close>

type_synonym str = "nat list"

definition lit :: "string \<Rightarrow> str" where
  "lit s = map of_char s"

text \<open>The line feed, \<^verbatim>\<open>'\n'\<close>.\<close>

definition NL :: nat where
  "NL = 10"

text \<open>
  \<open>isspace\<close> is the set of code points that \<open>str.strip()\<close> without argument
  removes (CPython's \<open>_PyUnicode_IsWhitespace\<close>): U+0009..U+000D, U+001C..U+001F,
  U+0020, U+0085, U+00A0, U+1680, U+2000..U+200A, U+2028, U+2029, U+202F, U+205F
  and U+3000.
\<close>

definition isspace :: "nat \<Rightarrow> bool" where
  "isspace c \<longleftrightarrow>
     (9 \<le> c \<and> c \<le> 13) \<or> (28 \<le> c \<and> c \<le> 32) \<or> c = 133 \<or> c = 160 \<or> c = 5760 \<or>
     (8192 \<le> c \<and> c \<le> 8202) \<or> c = 8232 \<or> c = 8233 \<or> c = 8239 \<or> c = 8287 \<or>
     c = 12288"

definition lstrip :: "str \<Rightarrow> str" where
  "lstrip s = dropWhile isspace s"

definition rstrip :: "str \<Rightarrow> str" where
  "rstrip s = rev (dropWhile isspace (rev s))"

text \<open>\<open>s.strip()\<close>: whitespace removed at both ends.\<close>

definition strip :: "str \<Rightarrow> str" where
  "strip s = rstrip (lstrip s)"

text \<open>
  \<open>s.split(sep)\<close> for a separator given explicitly: the string is scanned from the
  left, every occurrence of \<open>sep\<close> found ends a piece and the scan goes on behind
  it, so occurrences never overlap and the result always has at least one piece
  (\<open>''.split(sep) == ['']\<close>). Python raises \<open>ValueError\<close> for an empty separator;
  the program only ever passes the literals \<^verbatim>\<open>'\n\n'\<close> and \<^verbatim>\<open>'\n'\<close>, and here
  an empty separator is simply never found.
\<close>

fun split :: "str \<Rightarrow> str \<Rightarrow> str list" where
  "split sep [] = [[]]"
| "split sep (c # cs) =
     (if sep \<noteq> [] \<and> prefix sep (c # cs)
      then [] # split sep (drop (length sep) (c # cs))
      else (case split sep cs of
              [] \<Rightarrow> [[c]]
            | p # ps \<Rightarrow> (c # p) # ps))"

text \<open>
  \<open>s.replace(old, new)\<close>: every occurrence of \<open>old\<close>, found from the left
  without overlap, is replaced. The program passes a non-empty \<open>old\<close> only.
\<close>

fun replace :: "str \<Rightarrow> str \<Rightarrow> str \<Rightarrow> str" where
  "replace old new [] = []"
| "replace old new (c # cs) =
     (if old \<noteq> [] \<and> prefix old (c # cs)
      then new @ replace old new (drop (length old) (c # cs))
      else c # replace old new cs)"

text \<open>\<open>str(n)\<close> and \<open>f"{n}"\<close> for a non-negative integer: its decimal digits.\<close>

fun str_of_nat :: "nat \<Rightarrow> str" where
  "str_of_nat n = (if n < 10 then [48 + n] else str_of_nat (n div 10) @ [48 + n mod 10])"

declare str_of_nat.simps [simp del]

section \<open>The parser\<close>

text \<open>
  One round of the loop of \<open>parse_questions\<close>: the block is stripped and cut
  into lines; two or more lines give the pair of the first two, one line gives a question
  with the empty answer, and the list is left as it is otherwise.
\<close>

definition parse_block :: "(str \<times> str) list \<Rightarrow> str \<Rightarrow> (str \<times> str) list" where
  "parse_block qa_pairs block =
     (let lines = split [NL] (strip block) in
      if length lines \<ge> 2 then
        (let question = strip (lines ! 0); answer = strip (lines ! 1)
         in qa_pairs @ [(question, answer)])
      else if length lines = 1 then qa_pairs @ [(strip (lines ! 0), [])]
      else qa_pairs)"

text \<open>
  \<open>parse_questions\<close> once the file has been read: \<open>content\<close> is what
  \<open>f.read()\<close> returned.
\<close>

definition parse_content :: "str \<Rightarrow> (str \<times> str) list" where
  "parse_content content =
     (let blocks = split [NL, NL] (strip content) in foldl parse_block [] blocks)"

section \<open>The deck\<close>

text \<open>
  The presentation library is outside the repository. Of it the model keeps what the
  program sets: a presentation has its two dimensions and its slides in the order of
  \<open>add_slide\<close>; a slide has a background colour and its text boxes in the order of
  \<open>add_textbox\<close>; a text box has its position and size, its text, and the format given
  to its first paragraph. Lengths are in English Metric Units, as \<open>Inches\<close> and
  \<open>Pt\<close> return them. \<open>tb_word_wrap\<close> is \<open>True\<close> where the program sets it and
  \<open>False\<close> where it leaves the library's default.
\<close>

text \<open>\<open>Inches(t / 10)\<close>, for a length given in tenths of an inch.\<close>

definition Inches_tenths :: "nat \<Rightarrow> nat" where
  "Inches_tenths t = t * 91440"

definition Pt :: "nat \<Rightarrow> nat" where
  "Pt p = p * 12700"

type_synonym RGBColor = "nat \<times> nat \<times> nat"

datatype PP_ALIGN = JUSTIFY

record textbox =
  tb_left :: nat
  tb_top :: nat
  tb_width :: nat
  tb_height :: nat
  tb_word_wrap :: bool
  tb_text :: str
  tb_alignment :: PP_ALIGN
  tb_font_size :: nat
  tb_bold :: bool
  tb_color :: RGBColor

record slide =
  background :: RGBColor
  shapes :: "textbox list"

record presentation =
  slide_width :: nat
  slide_height :: nat
  slides :: "slide list"

text \<open>\<open>Presentation()\<close>: the default template, 10 by 7.5 inches, without slides.\<close>

definition Presentation :: presentation where
  "Presentation = \<lparr>slide_width = 9144000, slide_height = 6858000, slides = []\<rparr>"

text \<open>The title box, which both passes build in the same way.\<close>

definition title_box :: "str \<Rightarrow> textbox" where
  "title_box title_text =
     \<lparr>tb_left = Inches_tenths 5, tb_top = Inches_tenths 5,
      tb_width = Inches_tenths 90, tb_height = Inches_tenths 8,
      tb_word_wrap = False, tb_text = title_text, tb_alignment = JUSTIFY,
      tb_font_size = Pt 32, tb_bold = True, tb_color = (255, 255, 255)\<rparr>"

text \<open>
  \<open>create_slide\<close> appends a slide with the title box and one body box to the
  presentation; it returns the slide, and the presentation as it has become.
\<close>

definition create_slide :: "presentation \<Rightarrow> str \<Rightarrow> str \<Rightarrow> bool \<Rightarrow> slide \<times> presentation" where
  "create_slide prs title_text body_text make_bold =
     (let body_box =
            \<lparr>tb_left = Inches_tenths 10, tb_top = Inches_tenths 20,
             tb_width = Inches_tenths 80, tb_height = Inches_tenths 40,
             tb_word_wrap = True, tb_text = body_text, tb_alignment = JUSTIFY,
             tb_font_size = Pt 28, tb_bold = make_bold, tb_color = (255, 255, 255)\<rparr>;
          slide = \<lparr>background = (32, 32, 32), shapes = [title_box title_text, body_box]\<rparr>
      in (slide, prs\<lparr>slides := slides prs @ [slide]\<rparr>))"

text \<open>
  The first loop of \<open>generate_presentation\<close>, over \<open>enumerate(qa_pairs, start=1)\<close>;
  \<open>i\<close> is the number of the pair at the head of the list.
\<close>

fun question_pass :: "nat \<Rightarrow> (str \<times> str) list \<Rightarrow> presentation \<Rightarrow> presentation" where
  "question_pass i [] prs = prs"
| "question_pass i ((question, answer) # rest) prs =
     (let title = str_of_nat i @ lit ''.''
      in question_pass (Suc i) rest (snd (create_slide prs title question False)))"

text \<open>
  The slide that one round of the second loop builds: the title box, the question in
  a box of its own, not bold, and the answer in a lower box, bold.
\<close>

definition answer_slide :: "str \<Rightarrow> str \<Rightarrow> str \<Rightarrow> slide" where
  "answer_slide title question answer =
     (let q_box =
            \<lparr>tb_left = Inches_tenths 10, tb_top = Inches_tenths 20,
             tb_width = Inches_tenths 80, tb_height = Inches_tenths 20,
             tb_word_wrap = True, tb_text = question, tb_alignment = JUSTIFY,
             tb_font_size = Pt 28, tb_bold = False, tb_color = (255, 255, 255)\<rparr>;
          a_box =
            \<lparr>tb_left = Inches_tenths 10, tb_top = Inches_tenths 45,
             tb_width = Inches_tenths 80, tb_height = Inches_tenths 20,
             tb_word_wrap = True, tb_text = answer, tb_alignment = JUSTIFY,
             tb_font_size = Pt 28, tb_bold = True, tb_color = (255, 255, 255)\<rparr>
      in \<lparr>background = (32, 32, 32), shapes = [title_box title, q_box, a_box]\<rparr>)"

fun answer_pass :: "nat \<Rightarrow> (str \<times> str) list \<Rightarrow> presentation \<Rightarrow> presentation" where
  "answer_pass i [] prs = prs"
| "answer_pass i ((question, answer) # rest) prs =
     (let title = str_of_nat i @ lit ''.''
      in answer_pass (Suc i) rest
           (prs\<lparr>slides := slides prs @ [answer_slide title question answer]\<rparr>))"

text \<open>The presentation as it is when \<open>generate_presentation\<close> saves it.\<close>

definition build_deck :: "(str \<times> str) list \<Rightarrow> presentation" where
  "build_deck qa_pairs =
     (let prs = Presentation\<lparr>slide_width := Inches_tenths 100, slide_height := Inches_tenths 75\<rparr>;
          prs = question_pass 1 qa_pairs prs
      in answer_pass 1 qa_pairs prs)"

section \<open>The program and its surroundings\<close>

text \<open>
  What the program does to the outside is a list of events, in order: a line (or a
  group of lines) printed, a file opened for reading, a presentation saved under a name.
  Each \<open>message\<close> stands for one \<open>print\<close> of the source, \<open>Usage\<close> for the seven
  lines of the usage text and \<open>ErrNoPairs\<close> for the two lines of that error. The
  progress bars of \<open>tqdm\<close> are left out.
\<close>

datatype message =
    Usage
  | ReadingFrom str
  | ErrNoPairs
  | Found nat
  | GeneratingQuestions nat
  | GeneratingAnswers nat
  | SavedAs str
  | TotalSlides nat
  | QuestionSlides nat
  | AnswerSlides nat nat
  | ErrNotFound str
  | ErrOther str

datatype event =
    Print message
  | Open str
  | Save str presentation

text \<open>
  The two kinds of exception that \<open>main\<close> tells apart; \<open>Exception\<close> carries the
  text that \<open>main\<close> prints.
\<close>

datatype exn = FileNotFoundError | Exception str

text \<open>
  The surroundings: \<open>read_file\<close> is what opening a file and reading all of it gives,
  the text or the exception raised; \<open>save_fails\<close> is the exception, if any, that
  saving under a name raises. Building the slides is taken not to raise.
\<close>

record env =
  read_file :: "str \<Rightarrow> exn + str"
  save_fails :: "str \<Rightarrow> exn option"

definition parse_questions :: "env \<Rightarrow> str \<Rightarrow> exn + (str \<times> str) list" where
  "parse_questions e filename =
     (case read_file e filename of
        Inl x \<Rightarrow> Inl x
      | Inr content \<Rightarrow> Inr (parse_content content))"

text \<open>
  \<open>generate_presentation\<close> returns its events and the exception it ended with, if
  any.
\<close>

definition generate_presentation ::
  "env \<Rightarrow> (str \<times> str) list \<Rightarrow> str \<Rightarrow> event list \<times> exn option" where
  "generate_presentation e qa_pairs output_filename =
     (let num_questions = length qa_pairs;
          prs = build_deck qa_pairs;
          printed = [Print (GeneratingQuestions num_questions),
                     Print (GeneratingAnswers num_questions)]
      in case save_fails e output_filename of
           Some x \<Rightarrow> (printed, Some x)
         | None \<Rightarrow>
             (printed @
              [Save output_filename prs,
               Print (SavedAs output_filename),
               Print (TotalSlides (length (slides prs))),
               Print (QuestionSlides num_questions),
               Print (AnswerSlides (num_questions + 1) (length (slides prs)))],
              None))"

text \<open>The name of the output file, as \<open>main\<close> derives it from its argument.\<close>

definition output_name :: "str \<Rightarrow> str" where
  "output_name input_file =
     (let output_file = replace (lit ''.txt'') (lit ''.pptx'') input_file
      in if output_file = input_file then input_file @ lit ''.pptx'' else output_file)"

text \<open>
  \<open>main\<close>, given \<open>sys.argv\<close>: the exit status and the events. A run that falls off
  the end of \<open>main\<close> has status 0.
\<close>

definition main :: "env \<Rightarrow> str list \<Rightarrow> nat \<times> event list" where
  "main e argv =
     (if length argv \<noteq> 2 then (1, [Print Usage])
      else
        let input_file = argv ! 1;
            output_file = output_name input_file;
            started = [Print (ReadingFrom input_file), Open input_file]
        in case parse_questions e input_file of
             Inl FileNotFoundError \<Rightarrow> (1, started @ [Print (ErrNotFound input_file)])
           | Inl (Exception x) \<Rightarrow> (1, started @ [Print (ErrOther x)])
           | Inr qa_pairs \<Rightarrow>
               if qa_pairs = [] then (1, started @ [Print ErrNoPairs])
               else
                 (case generate_presentation e qa_pairs output_file of
                    (evs, Some FileNotFoundError) \<Rightarrow>
                      (1, started @ [Print (Found (length qa_pairs))] @ evs @
                          [Print (ErrNotFound input_file)])
                  | (evs, Some (Exception x)) \<Rightarrow>
                      (1, started @ [Print (Found (length qa_pairs))] @ evs @
                          [Print (ErrOther x)])
                  | (evs, None) \<Rightarrow>
                      (0, started @ [Print (Found (length qa_pairs))] @ evs)))"

section \<open>Input made of blocks of lines\<close>

text \<open>\<open>sep.join(xs)\<close>: the strings of \<open>xs\<close> with \<open>sep\<close> between neighbours.\<close>

fun join :: "str \<Rightarrow> str list \<Rightarrow> str" where
  "join sep [] = []"
| "join sep [x] = x"
| "join sep (x # y # ys) = x @ sep @ join sep (y # ys)"


text \<open>
  The input text that consists of the given blocks, each a list of lines: the lines of a
  block follow one another, and one blank line stands between two blocks.
\<close>

definition text_of_blocks :: "str list list \<Rightarrow> str" where
  "text_of_blocks blocks = join [NL, NL] (map (join [NL]) blocks)"


text \<open>
  A text without a blank line in it or at its end: no two line feeds in a row, and no
  line feed as the last code point. Such a text is one piece for \<^verbatim>\<open>split('\n\n')\<close>.
\<close>

fun no_blank_line :: "str \<Rightarrow> bool" where
  "no_blank_line [] = True"
| "no_blank_line [c] = (c \<noteq> NL)"
| "no_blank_line (c # d # s) = (\<not> (c = NL \<and> d = NL) \<and> no_blank_line (d # s))"

text \<open>
  A wider notion of input. A line of a block is any string that is not empty and holds no
  line feed, so a line of nothing but whitespace is a line too; only the first line of
  every block has to hold a code point that is not whitespace.
\<close>

definition block_line :: "str \<Rightarrow> bool" where
  "block_line l \<longleftrightarrow> l \<noteq> [] \<and> NL \<notin> set l"

definition nonblank :: "str \<Rightarrow> bool" where
  "nonblank l \<longleftrightarrow> (\<exists>c \<in> set l. \<not> isspace c)"

definition blocks_of_lines :: "str list list \<Rightarrow> bool" where
  "blocks_of_lines blocks \<longleftrightarrow>
     blocks \<noteq> [] \<and>
     list_all (\<lambda>b. b \<noteq> [] \<and> list_all block_line b \<and> nonblank (hd b)) blocks"

text \<open>
  Between two blocks there is one blank line, or two. A block comes with a flag that says
  whether a second blank line stands before it; the text of such a block starts with the
  line feed of that second blank line.
\<close>

definition spaced_block :: "bool \<times> str list \<Rightarrow> str" where
  "spaced_block g = (if fst g then [NL] else []) @ join [NL] (snd g)"

definition text_of_spaced_blocks :: "(bool \<times> str list) list \<Rightarrow> str" where
  "text_of_spaced_blocks gs = join [NL, NL] (map spaced_block gs)"

section \<open>Every block gives one pair\<close>

lemma split_not_Nil: "split sep s \<noteq> []"
  by (cases s) (auto split: list.splits)

lemma length_parse_block: "length (parse_block acc b) = Suc (length acc)"
proof -
  have "length (split [NL] (strip b)) \<ge> 1"
    using split_not_Nil [of "[NL]" "strip b"] by (cases "split [NL] (strip b)") auto
  then show ?thesis by (auto simp: parse_block_def Let_def)
qed

lemma length_foldl_parse_block: "length (foldl parse_block acc bs) = length acc + length bs"
  by (induction bs arbitrary: acc) (simp_all add: length_parse_block)

lemma parse_block_append: "parse_block acc b = acc @ parse_block [] b"
  by (simp add: parse_block_def Let_def)

lemma foldl_parse_block: "foldl parse_block acc bs = acc @ concat (map (parse_block []) bs)"
proof (induction bs arbitrary: acc)
  case Nil
  show ?case by simp
next
  case (Cons b bs)
  show ?case
    using Cons.IH [of "parse_block acc b"] parse_block_append [of acc b] by simp
qed

lemma generate_no_ErrNoPairs:
  "generate_presentation e qa out = (evs, x) \<Longrightarrow> Print ErrNoPairs \<notin> set evs"
  by (auto simp: generate_presentation_def Let_def split: option.splits)

lemma parse_content_Nil: "parse_content [] = [([], [])]"
  by (simp add: parse_content_def parse_block_def strip_def lstrip_def rstrip_def)

text \<open>
  Claim C9. For every input string, the empty one too, \<open>parse_questions\<close> returns
  at least one pair: cutting at \<^verbatim>\<open>'\n\n'\<close> gives at least one block and every block,
  also an empty one, gives exactly one pair, so there are as many pairs as blocks.
  Hence no run of \<open>main\<close>, whatever the arguments and the files, prints the
  "no question/answer pairs found" error.
\<close>

theorem parse_questions_never_empty:
  "length (parse_content content) = length (split [NL, NL] (strip content))
   \<and> parse_content content \<noteq> []
   \<and> Print ErrNoPairs \<notin> set (snd (main e argv))"
proof (intro conjI)
  show len: "length (parse_content content) = length (split [NL, NL] (strip content))"
    by (simp add: parse_content_def length_foldl_parse_block)
  show "parse_content content \<noteq> []"
    using len split_not_Nil [of "[NL, NL]" "strip content"] by auto
  have ne: "parse_content c \<noteq> []" for c
    using split_not_Nil [of "[NL, NL]" "strip c"]
    by (auto simp: parse_content_def length_foldl_parse_block dest: arg_cong [where f = length])
  show "Print ErrNoPairs \<notin> set (snd (main e argv))"
    by (auto simp: main_def Let_def parse_questions_def ne
        split: sum.splits exn.splits option.splits prod.splits dest: generate_no_ErrNoPairs)
qed

text \<open>
  Claim C4, at the empty file. The claim says that the empty text gives no pair and
  that the program then reports the empty-parse error, exits with a non-zero status and
  writes nothing. The code gives the one pair of two empty strings, finds one pair, saves
  a deck of two slides and ends with status 0.
\<close>

theorem main_empty_file_saves_deck:
  "parse_content [] = [([], [])]
   \<and> main \<lparr>read_file = (\<lambda>f. Inr []), save_fails = (\<lambda>f. None)\<rparr>
        [lit ''quiz_generator.py'', lit ''empty.txt'']
     = (0, [Print (ReadingFrom (lit ''empty.txt'')), Open (lit ''empty.txt''),
            Print (Found 1),
            Print (GeneratingQuestions 1), Print (GeneratingAnswers 1),
            Save (lit ''empty.pptx'') (build_deck [([], [])]),
            Print (SavedAs (lit ''empty.pptx'')), Print (TotalSlides 2),
            Print (QuestionSlides 1), Print (AnswerSlides 2 2)])"
  by (simp add: parse_content_Nil main_def parse_questions_def generate_presentation_def
      output_name_def Let_def lit_def build_deck_def create_slide_def Presentation_def)

text \<open>
  Claim C5, at two blocks with three blank lines between them. The claim says that the
  empty block between the two separators gives no pair. The code gives the pair of two
  empty strings for it, between the pairs of its neighbours.
\<close>

theorem parse_empty_block_gives_pair:
  "parse_content (lit ''Q1\<newline>A1\<newline>\<newline>\<newline>\<newline>Q2\<newline>A2'')
     = [(lit ''Q1'', lit ''A1''), ([], []), (lit ''Q2'', lit ''A2'')]"
  by (simp add: parse_content_def parse_block_def lit_def strip_def lstrip_def rstrip_def
      NL_def isspace_def)

section \<open>The command line\<close>

text \<open>
  Claim C8. Whenever \<open>sys.argv\<close> does not have exactly two entries (the program and
  one argument), \<open>main\<close> prints the usage text and exits with status 1, and that is
  all it does: no file is opened and nothing is saved.
\<close>

theorem main_wrong_arity:
  "length argv \<noteq> 2 \<Longrightarrow> main e argv = (1, [Print Usage])"
  by (simp add: main_def)

theorem main_wrong_arity_witness:
  "length [lit ''quiz_generator.py'', lit ''a.txt'', lit ''b.txt''] \<noteq> 2
   \<and> main \<lparr>read_file = (\<lambda>f. Inr (lit ''Q?'')), save_fails = (\<lambda>f. None)\<rparr>
        [lit ''quiz_generator.py'', lit ''a.txt'', lit ''b.txt'']
     = (1, [Print Usage])"
  using main_wrong_arity [of "[lit ''quiz_generator.py'', lit ''a.txt'', lit ''b.txt'']"
      "\<lparr>read_file = (\<lambda>f. Inr (lit ''Q?'')), save_fails = (\<lambda>f. None)\<rparr>"]
  by simp

text \<open>
  Claim C3, at the name \<^verbatim>\<open>notes.txt.bak\<close>. The claim says that a name without a
  trailing \<^verbatim>\<open>.txt\<close> gets \<^verbatim>\<open>.pptx\<close> appended and is otherwise unchanged. The code
  replaces \<^verbatim>\<open>.txt\<close> wherever it occurs, so this name becomes \<^verbatim>\<open>notes.pptx.bak\<close>.
\<close>

theorem output_name_replaces_inner_txt:
  "output_name (lit ''notes.txt.bak'') = lit ''notes.pptx.bak''
   \<and> output_name (lit ''notes.txt.bak'') \<noteq> lit ''notes.txt.bak.pptx''"
  by (simp add: output_name_def lit_def)

section \<open>The order of the slides\<close>

lemma slides_question_pass:
  "slides (question_pass i qa prs) =
     slides prs @ map (\<lambda>(k, q, a). fst (create_slide prs (str_of_nat k @ lit ''.'') q False))
                    (enumerate i qa)"
proof (induction qa arbitrary: i prs)
  case Nil
  show ?case by simp
next
  case (Cons p qa)
  obtain q a where p: "p = (q, a)" by (cases p)
  show ?case
    unfolding p question_pass.simps Let_def Cons.IH
    by (simp add: create_slide_def Let_def)
qed

lemma slides_answer_pass:
  "slides (answer_pass i qa prs) =
     slides prs @ map (\<lambda>(k, q, a). answer_slide (str_of_nat k @ lit ''.'') q a)
                    (enumerate i qa)"
proof (induction qa arbitrary: i prs)
  case Nil
  show ?case by simp
next
  case (Cons p qa)
  obtain q a where p: "p = (q, a)" by (cases p)
  show ?case
    unfolding p answer_pass.simps Let_def Cons.IH
    by simp
qed

lemma slides_build_deck:
  "slides (build_deck qa) =
     map (\<lambda>(k, q, a). fst (create_slide Presentation (str_of_nat k @ lit ''.'') q False))
         (enumerate 1 qa)
     @ map (\<lambda>(k, q, a). answer_slide (str_of_nat k @ lit ''.'') q a)
         (enumerate 1 qa)"
  by (simp add: build_deck_def Let_def slides_question_pass slides_answer_pass
      Presentation_def create_slide_def)

text \<open>
  Claim C2. For every list of \<open>N\<close> pairs the deck that \<open>generate_presentation\<close>
  saves has exactly \<open>2 * N\<close> slides. The first \<open>N\<close> are the question slides in
  the order of the pairs: slide \<open>i\<close> (counted from 1) has the title \<open>i\<close> followed
  by a full stop and one body box with the question, not bold. The next \<open>N\<close> are the
  answer slides in the same order: slide \<open>N + i\<close> has the same title and two body
  boxes, the question, not bold, and the answer, bold. Indices below count from 0.
  This deck is the one that \<open>generate_presentation\<close> saves under the output name
  when saving does not fail.
\<close>

theorem deck_questions_then_answers:
  "length (slides (build_deck qa_pairs)) = 2 * length qa_pairs
   \<and> (\<forall>i < length qa_pairs.
        map tb_text (shapes (slides (build_deck qa_pairs) ! i))
          = [str_of_nat (i + 1) @ lit ''.'', fst (qa_pairs ! i)]
        \<and> map tb_bold (tl (shapes (slides (build_deck qa_pairs) ! i))) = [False]
        \<and> slides (build_deck qa_pairs) ! (length qa_pairs + i)
          = answer_slide (str_of_nat (i + 1) @ lit ''.'') (fst (qa_pairs ! i)) (snd (qa_pairs ! i))
        \<and> map tb_text (shapes (slides (build_deck qa_pairs) ! (length qa_pairs + i)))
          = [str_of_nat (i + 1) @ lit ''.'', fst (qa_pairs ! i), snd (qa_pairs ! i)]
        \<and> map tb_bold (tl (shapes (slides (build_deck qa_pairs) ! (length qa_pairs + i))))
          = [False, True])
   \<and> (save_fails e output_filename = None \<longrightarrow>
        Save output_filename (build_deck qa_pairs)
          \<in> set (fst (generate_presentation e qa_pairs output_filename)))"
proof (intro conjI allI impI)
  show "length (slides (build_deck qa_pairs)) = 2 * length qa_pairs"
    by (simp add: slides_build_deck)
next
  fix i assume i: "i < length qa_pairs"
  let ?n = "length qa_pairs"
  obtain q a where qa: "qa_pairs ! i = (q, a)" by (cases "qa_pairs ! i")
  have z: "enumerate 1 qa_pairs ! i = (i + 1, q, a)"
    using i qa by (simp add: nth_enumerate_eq)
  have q_slide: "slides (build_deck qa_pairs) ! i
      = fst (create_slide Presentation (str_of_nat (i + 1) @ lit ''.'') q False)"
    using i z by (simp add: slides_build_deck nth_append)
  have a_slide: "slides (build_deck qa_pairs) ! (?n + i)
      = answer_slide (str_of_nat (i + 1) @ lit ''.'') q a"
    using i z by (simp add: slides_build_deck nth_append)
  show "map tb_text (shapes (slides (build_deck qa_pairs) ! i))
          = [str_of_nat (i + 1) @ lit ''.'', fst (qa_pairs ! i)]"
    by (simp add: q_slide qa create_slide_def Let_def title_box_def)
  show "map tb_bold (tl (shapes (slides (build_deck qa_pairs) ! i))) = [False]"
    by (simp add: q_slide create_slide_def Let_def)
  show "slides (build_deck qa_pairs) ! (?n + i)
          = answer_slide (str_of_nat (i + 1) @ lit ''.'') (fst (qa_pairs ! i)) (snd (qa_pairs ! i))"
    by (simp add: a_slide qa)
  show "map tb_text (shapes (slides (build_deck qa_pairs) ! (?n + i)))
          = [str_of_nat (i + 1) @ lit ''.'', fst (qa_pairs ! i), snd (qa_pairs ! i)]"
    by (simp add: a_slide qa answer_slide_def Let_def title_box_def)
  show "map tb_bold (tl (shapes (slides (build_deck qa_pairs) ! (?n + i)))) = [False, True]"
    by (simp add: a_slide answer_slide_def Let_def)
next
  assume "save_fails e output_filename = None"
  then show "Save output_filename (build_deck qa_pairs)
      \<in> set (fst (generate_presentation e qa_pairs output_filename))"
    by (simp add: generate_presentation_def Let_def)
qed

theorem deck_questions_then_answers_witness:
  "length (slides (build_deck [(lit ''Q1?'', lit ''A1''), (lit ''Q2?'', lit ''A2'')])) = 4
   \<and> (1::nat) < length [(lit ''Q1?'', lit ''A1''), (lit ''Q2?'', lit ''A2'')]
   \<and> map tb_text (shapes (slides (build_deck [(lit ''Q1?'', lit ''A1''), (lit ''Q2?'', lit ''A2'')]) ! 1))
       = [lit ''2.'', lit ''Q2?'']
   \<and> map tb_text (shapes (slides (build_deck [(lit ''Q1?'', lit ''A1''), (lit ''Q2?'', lit ''A2'')]) ! 3))
       = [lit ''2.'', lit ''Q2?'', lit ''A2'']
   \<and> map tb_bold (tl (shapes (slides (build_deck [(lit ''Q1?'', lit ''A1''), (lit ''Q2?'', lit ''A2'')]) ! 3)))
       = [False, True]
   \<and> Save (lit ''quiz.pptx'') (build_deck [(lit ''Q1?'', lit ''A1''), (lit ''Q2?'', lit ''A2'')])
       \<in> set (fst (generate_presentation
                      \<lparr>read_file = (\<lambda>f. Inl FileNotFoundError), save_fails = (\<lambda>f. None)\<rparr>
                      [(lit ''Q1?'', lit ''A1''), (lit ''Q2?'', lit ''A2'')] (lit ''quiz.pptx'')))"
proof -
  let ?qa = "[(lit ''Q1?'', lit ''A1''), (lit ''Q2?'', lit ''A2'')]"
  let ?e = "\<lparr>read_file = (\<lambda>f. Inl FileNotFoundError), save_fails = (\<lambda>f. None)\<rparr>"
  have saves: "save_fails ?e (lit ''quiz.pptx'') = None" by simp
  have two: "str_of_nat (Suc (Suc 0)) = lit ''2''"
    by (simp add: str_of_nat.simps lit_def)
  have lt: "(1::nat) < length ?qa" by simp
  have three: "length ?qa + 1 = 3" by simp
  show ?thesis
    using deck_questions_then_answers [of ?qa, THEN conjunct1]
      deck_questions_then_answers [of ?qa, THEN conjunct2, THEN conjunct1, rule_format, OF lt]
      deck_questions_then_answers [of ?qa ?e "lit ''quiz.pptx''", THEN conjunct2, THEN conjunct2,
        rule_format, OF saves]
    unfolding three
    by (simp add: two lit_def answer_slide_def title_box_def Let_def)
qed

section \<open>What the pairs are made of\<close>

lemma set_lstrip: "set (lstrip s) \<subseteq> set s"
  by (auto simp: lstrip_def dest: set_dropWhileD)

lemma set_rstrip: "set (rstrip s) \<subseteq> set s"
  by (auto simp: rstrip_def dest: set_dropWhileD)

lemma set_strip: "set (strip s) \<subseteq> set s"
  using set_rstrip [of "lstrip s"] set_lstrip [of s] by (auto simp: strip_def)

lemma rstrip_decomp: "s = rstrip s @ rev (takeWhile isspace (rev s))"
proof -
  have "rev (takeWhile isspace (rev s) @ dropWhile isspace (rev s)) = s"
    by (simp only: takeWhile_dropWhile_id rev_rev_ident)
  then show ?thesis
    by (simp only: rev_append rstrip_def)
qed

lemma last_rstrip: "rstrip s \<noteq> [] \<Longrightarrow> \<not> isspace (last (rstrip s))"
  by (simp add: rstrip_def last_rev hd_dropWhile)

lemma hd_rstrip: "rstrip s \<noteq> [] \<Longrightarrow> hd (rstrip s) = hd s"
  using rstrip_decomp [of s] by (metis hd_append2)

lemma hd_lstrip: "lstrip s \<noteq> [] \<Longrightarrow> \<not> isspace (hd (lstrip s))"
  by (simp add: lstrip_def hd_dropWhile)

lemma strip_trimmed:
  "strip s = [] \<or> \<not> isspace (hd (strip s)) \<and> \<not> isspace (last (strip s))"
proof (cases "strip s = []")
  case True
  then show ?thesis by simp
next
  case False
  then have ne: "rstrip (lstrip s) \<noteq> []" by (simp add: strip_def)
  then have "lstrip s \<noteq> []" by (auto simp: rstrip_def)
  then have "\<not> isspace (hd (lstrip s))" by (rule hd_lstrip)
  then have "\<not> isspace (hd (strip s))" using hd_rstrip [OF ne] by (simp add: strip_def)
  moreover have "\<not> isspace (last (strip s))" using last_rstrip [OF ne] by (simp add: strip_def)
  ultimately show ?thesis by simp
qed

lemma split_char_pieces: "x \<in> set (split [c] s) \<Longrightarrow> c \<notin> set x"
proof (induction s arbitrary: x)
  case Nil
  then show ?case by simp
next
  case (Cons d s)
  show ?case
  proof (cases "d = c")
    case True
    with Cons show ?thesis by auto
  next
    case False
    with Cons show ?thesis by (auto split: list.splits)
  qed
qed

lemma strip_line_no_NL: "x \<in> set (split [NL] s) \<Longrightarrow> NL \<notin> set (strip x)"
  using split_char_pieces [of x NL s] set_strip [of x] by auto

lemma parse_block_pairs:
  assumes "p \<in> set (parse_block [] b)"
  shows "\<exists>x \<in> set (split [NL] (strip b)).
           fst p = strip x \<and> (snd p = [] \<or> (\<exists>y \<in> set (split [NL] (strip b)). snd p = strip y))"
proof -
  let ?ls = "split [NL] (strip b)"
  have ne: "?ls \<noteq> []" by (rule split_not_Nil)
  then have m0: "?ls ! 0 \<in> set ?ls" by simp
  show ?thesis
  proof (cases "length ?ls \<ge> 2")
    case True
    then have m1: "?ls ! 1 \<in> set ?ls" by simp
    from True assms have "p = (strip (?ls ! 0), strip (?ls ! 1))"
      by (simp add: parse_block_def Let_def)
    with m0 m1 show ?thesis by auto
  next
    case False
    with assms have "p = (strip (?ls ! 0), [])"
      by (simp add: parse_block_def Let_def split: if_splits)
    with m0 show ?thesis by auto
  qed
qed

lemma parse_content_example: "parse_content (lit ''  Q1? \<newline> A1  \<newline>\<newline>Q2?'') = [(lit ''Q1?'', lit ''A1''), (lit ''Q2?'', [])]"
  by (simp add: parse_content_def parse_block_def lit_def strip_def lstrip_def rstrip_def
      NL_def isspace_def)

text \<open>
  Claim C10. For every input string, every question and every answer that
  \<open>parse_questions\<close> returns contains no line feed and has no whitespace at its
  start or at its end: it is empty, or its first and its last code point are not
  whitespace.
\<close>

theorem parse_pairs_stripped_lines:
  "\<forall>(q, a) \<in> set (parse_content content).
     NL \<notin> set q \<and> NL \<notin> set a
     \<and> (q = [] \<or> \<not> isspace (hd q) \<and> \<not> isspace (last q))
     \<and> (a = [] \<or> \<not> isspace (hd a) \<and> \<not> isspace (last a))"
proof (clarify, intro conjI)
  fix q a assume "(q, a) \<in> set (parse_content content)"
  then obtain b where "(q, a) \<in> set (parse_block [] b)"
    by (auto simp: parse_content_def foldl_parse_block)
  from parse_block_pairs [OF this]
  obtain x where x: "x \<in> set (split [NL] (strip b))" "q = strip x"
    and a: "a = [] \<or> (\<exists>y \<in> set (split [NL] (strip b)). a = strip y)"
    by auto
  show "NL \<notin> set q" using x strip_line_no_NL by simp
  show "NL \<notin> set a" using a strip_line_no_NL by auto
  show "q = [] \<or> \<not> isspace (hd q) \<and> \<not> isspace (last q)"
    unfolding x(2) by (rule strip_trimmed)
  show "a = [] \<or> \<not> isspace (hd a) \<and> \<not> isspace (last a)"
    using a strip_trimmed by auto
qed


theorem parse_pairs_stripped_lines_witness:
  "(lit ''Q1?'', lit ''A1'') \<in> set (parse_content (lit ''  Q1? \<newline> A1  \<newline>\<newline>Q2?''))
   \<and> NL \<notin> set (lit ''Q1?'') \<and> NL \<notin> set (lit ''A1'')
   \<and> \<not> isspace (hd (lit ''Q1?'')) \<and> \<not> isspace (last (lit ''Q1?''))
   \<and> \<not> isspace (hd (lit ''A1'')) \<and> \<not> isspace (last (lit ''A1''))"
proof -
  have m: "(lit ''Q1?'', lit ''A1'') \<in> set (parse_content (lit ''  Q1? \<newline> A1  \<newline>\<newline>Q2?''))"
    by (simp add: parse_content_example)
  have ne: "lit ''Q1?'' \<noteq> []" "lit ''A1'' \<noteq> []" by (simp_all add: lit_def)
  show ?thesis
    using parse_pairs_stripped_lines [of "lit ''  Q1? \<newline> A1  \<newline>\<newline>Q2?''", rule_format, OF m] m ne
    by simp
qed

section \<open>Stripping and splitting a text made of blocks\<close>

lemma isspace_NL: "isspace NL"
  by (simp add: isspace_def NL_def)

lemma lstrip_append: "\<exists>c \<in> set x. \<not> isspace c \<Longrightarrow> lstrip (x @ r) = lstrip x @ r"
  by (auto simp: lstrip_def dropWhile_append1)

lemma rstrip_append: "\<exists>c \<in> set x. \<not> isspace c \<Longrightarrow> rstrip (r @ x) = r @ rstrip x"
  by (auto simp: rstrip_def dropWhile_append1)

lemma nonblank_lstrip: "\<exists>c \<in> set x. \<not> isspace c \<Longrightarrow> \<exists>c \<in> set (lstrip x). \<not> isspace c"
proof -
  assume "\<exists>c \<in> set x. \<not> isspace c"
  then obtain c where c: "c \<in> set x" "\<not> isspace c" by auto
  have "set x = set (takeWhile isspace x) \<union> set (dropWhile isspace x)"
    by (metis set_append takeWhile_dropWhile_id)
  with c have "c \<in> set (dropWhile isspace x)"
    by (auto dest: set_takeWhileD)
  with c show ?thesis by (auto simp: lstrip_def)
qed

lemma nonblank_rstrip: "\<exists>c \<in> set x. \<not> isspace c \<Longrightarrow> \<exists>c \<in> set (rstrip x). \<not> isspace c"
proof -
  assume "\<exists>c \<in> set x. \<not> isspace c"
  then have "\<exists>c \<in> set (rev x). \<not> isspace c" by simp
  then have "\<exists>c \<in> set (lstrip (rev x)). \<not> isspace c" by (rule nonblank_lstrip)
  then show ?thesis by (simp add: rstrip_def lstrip_def)
qed

lemma lstrip_idem: "lstrip (lstrip s) = lstrip s"
  by (simp add: lstrip_def)

lemma rstrip_idem: "rstrip (rstrip s) = rstrip s"
  by (simp add: rstrip_def)

lemma lstrip_no_lead: "s = [] \<or> \<not> isspace (hd s) \<Longrightarrow> lstrip s = s"
  by (cases s) (auto simp: lstrip_def)

lemma lstrip_rstrip_commute: "lstrip (rstrip s) = rstrip (lstrip s)"
proof (cases "\<exists>c \<in> set s. \<not> isspace c")
  case False
  then have l: "lstrip s = []" and r: "rstrip s = []"
    by (auto simp: lstrip_def rstrip_def)
  have "lstrip [] = []" "rstrip [] = []"
    by (simp_all add: lstrip_def rstrip_def)
  then show ?thesis unfolding l r by simp
next
  case True
  let ?w = "takeWhile isspace s"
  let ?t = "lstrip s"
  have s: "s = ?w @ ?t" by (simp add: lstrip_def)
  have t: "\<exists>c \<in> set ?t. \<not> isspace c" using True by (rule nonblank_lstrip)
  then have tne: "?t \<noteq> []" by auto
  have rt: "\<exists>c \<in> set (rstrip ?t). \<not> isspace c" using t by (rule nonblank_rstrip)
  then have rne: "rstrip ?t \<noteq> []" by auto
  have "\<not> isspace (hd ?t)" using tne by (rule hd_lstrip)
  then have "\<not> isspace (hd (rstrip ?t))" using hd_rstrip [OF rne] by simp
  then have same: "lstrip (rstrip ?t) = rstrip ?t" by (simp add: lstrip_no_lead)
  have "rstrip s = ?w @ rstrip ?t"
    using rstrip_append [OF t, of ?w] s by simp
  then have "lstrip (rstrip s) = dropWhile isspace (?w @ rstrip ?t)"
    by (simp add: lstrip_def)
  also have "\<dots> = dropWhile isspace (rstrip ?t)"
    by (rule dropWhile_append2) (auto dest: set_takeWhileD)
  also have "\<dots> = rstrip ?t" using same by (simp add: lstrip_def)
  finally show ?thesis .
qed

lemma strip_lstrip: "strip (lstrip s) = strip s"
  by (simp add: strip_def lstrip_idem)

lemma strip_rstrip: "strip (rstrip s) = strip s"
  by (simp add: strip_def lstrip_rstrip_commute rstrip_idem)

lemma parse_block_lstrip: "parse_block acc (lstrip b) = parse_block acc b"
  by (simp add: parse_block_def strip_lstrip)

lemma parse_block_rstrip: "parse_block acc (rstrip b) = parse_block acc b"
  by (simp add: parse_block_def strip_rstrip)

lemma join_ends: "join sep (x # ms @ [y]) = x @ sep @ concat (map (\<lambda>m. m @ sep) ms) @ y"
proof (induction ms arbitrary: x)
  case Nil
  show ?case by simp
next
  case (Cons m ms)
  show ?case using Cons.IH [of m] by simp
qed

lemma strip_join_ends:
  assumes "\<exists>c \<in> set x. \<not> isspace c" and "\<exists>c \<in> set y. \<not> isspace c"
  shows "strip (join sep (x # ms @ [y])) = join sep (lstrip x # ms @ [rstrip y])"
proof -
  let ?m = "sep @ concat (map (\<lambda>m. m @ sep) ms)"
  have "lstrip (x @ ?m @ y) = lstrip x @ ?m @ y"
    using assms(1) by (rule lstrip_append)
  moreover have "rstrip ((lstrip x @ ?m) @ y) = (lstrip x @ ?m) @ rstrip y"
    using assms(2) by (rule rstrip_append)
  ultimately show ?thesis
    by (simp add: strip_def join_ends)
qed

lemma list_ends_cases:
  assumes "xs \<noteq> []"
  obtains x where "xs = [x]" | x ms y where "xs = x # ms @ [y]"
proof (cases xs)
  case Nil
  with assms show ?thesis by simp
next
  case (Cons x rest)
  show ?thesis
  proof (cases rest rule: rev_cases)
    case Nil
    with Cons that(1) show ?thesis by simp
  next
    case (snoc ms y)
    with Cons that(2) show ?thesis by simp
  qed
qed

lemma split_NL_single: "NL \<notin> set l \<Longrightarrow> split [NL] l = [l]"
  by (induction l) auto

lemma split_NL_line: "NL \<notin> set l \<Longrightarrow> split [NL] (l @ NL # r) = l # split [NL] r"
  by (induction l) auto

lemma split_NL_join:
  "ls \<noteq> [] \<Longrightarrow> \<forall>l \<in> set ls. NL \<notin> set l \<Longrightarrow> split [NL] (join [NL] ls) = ls"
proof (induction ls rule: induct_list012)
  case 1
  then show ?case by simp
next
  case (2 x)
  then show ?case by (simp add: split_NL_single)
next
  case (3 x y ys)
  then show ?case by (simp add: split_NL_line)
qed

lemma split_blank_single: "no_blank_line b \<Longrightarrow> split [NL, NL] b = [b]"
  by (induction b rule: no_blank_line.induct) auto

lemma split_blank_block:
  "no_blank_line b \<Longrightarrow> split [NL, NL] (b @ NL # NL # r) = b # split [NL, NL] r"
  by (induction b rule: no_blank_line.induct) auto

lemma split_blank_join:
  "bs \<noteq> [] \<Longrightarrow> \<forall>b \<in> set bs. no_blank_line b \<Longrightarrow> split [NL, NL] (join [NL, NL] bs) = bs"
proof (induction bs rule: induct_list012)
  case 1
  then show ?case by simp
next
  case (2 x)
  then show ?case by (simp add: split_blank_single)
next
  case (3 x y ys)
  then show ?case by (simp add: split_blank_block)
qed

lemma no_blank_line_tl: "no_blank_line (c # s) \<Longrightarrow> no_blank_line s"
  by (cases s) auto

lemma no_blank_line_lstrip: "no_blank_line s \<Longrightarrow> no_blank_line (lstrip s)"
  unfolding lstrip_def by (induction s) (auto dest: no_blank_line_tl)

lemma no_blank_line_line: "l \<noteq> [] \<Longrightarrow> NL \<notin> set l \<Longrightarrow> no_blank_line l"
  by (induction l rule: no_blank_line.induct) auto

lemma no_blank_line_prefix:
  "no_blank_line (p @ q) \<Longrightarrow> p = [] \<or> last p \<noteq> NL \<Longrightarrow> no_blank_line p"
proof (induction p rule: no_blank_line.induct)
  case 1
  show ?case by simp
next
  case (2 c)
  then show ?case by simp
next
  case (3 c d s)
  then show ?case by auto
qed

lemma no_blank_line_rstrip: "no_blank_line s \<Longrightarrow> no_blank_line (rstrip s)"
proof -
  assume s: "no_blank_line s"
  have "rstrip s = [] \<or> last (rstrip s) \<noteq> NL"
    using last_rstrip [of s] isspace_NL by auto
  moreover have "no_blank_line (rstrip s @ rev (takeWhile isspace (rev s)))"
    using s rstrip_decomp [of s] by simp
  ultimately show ?thesis by (rule no_blank_line_prefix [rotated])
qed

lemma no_blank_line_cons_line:
  "l \<noteq> [] \<Longrightarrow> NL \<notin> set l \<Longrightarrow> t \<noteq> [] \<Longrightarrow> hd t \<noteq> NL \<Longrightarrow> no_blank_line t
   \<Longrightarrow> no_blank_line (l @ NL # t)"
proof (induction l rule: no_blank_line.induct)
  case 1
  then show ?case by simp
next
  case (2 c)
  then show ?case by (cases t) auto
next
  case (3 c d s)
  then show ?case by auto
qed

lemma join_lines_shape:
  "ls \<noteq> [] \<Longrightarrow> \<forall>l \<in> set ls. l \<noteq> [] \<and> NL \<notin> set l
   \<Longrightarrow> join [NL] ls \<noteq> [] \<and> hd (join [NL] ls) \<noteq> NL \<and> no_blank_line (join [NL] ls)"
proof (induction ls rule: induct_list012)
  case 1
  then show ?case by simp
next
  case (2 x)
  then show ?case by (cases x) (auto simp: no_blank_line_line)
next
  case (3 x y ys)
  then have ih: "join [NL] (y # ys) \<noteq> []" "hd (join [NL] (y # ys)) \<noteq> NL"
    "no_blank_line (join [NL] (y # ys))" by auto
  from 3 have x: "x \<noteq> []" "NL \<notin> set x" by auto
  have "no_blank_line (x @ NL # join [NL] (y # ys))"
    using x ih by (rule no_blank_line_cons_line)
  moreover have "hd (x @ NL # join [NL] (y # ys)) \<noteq> NL"
    using x by (cases x) auto
  ultimately show ?case using x by simp
qed

lemma strip_idem: "strip (strip s) = strip s"
proof -
  have "strip (strip s) = strip (rstrip (lstrip s))" by (simp add: strip_def)
  also have "\<dots> = strip (lstrip s)" by (rule strip_rstrip)
  also have "\<dots> = strip s" by (rule strip_lstrip)
  finally show ?thesis .
qed

lemma set_join: "l \<in> set ls \<Longrightarrow> set l \<subseteq> set (join sep ls)"
  by (induction ls rule: induct_list012) auto





lemma parse_content_join:
  assumes ne: "bs \<noteq> []"
    and shape: "\<forall>b \<in> set bs. no_blank_line b \<and> (\<exists>c \<in> set b. \<not> isspace c)"
  shows "parse_content (join [NL, NL] bs) = concat (map (parse_block []) bs)"
using ne
proof (cases bs rule: list_ends_cases)
  case (1 x)
  with shape have "no_blank_line x" by simp
  then have "no_blank_line (strip x)"
    unfolding strip_def by (intro no_blank_line_rstrip no_blank_line_lstrip)
  then have "split [NL, NL] (strip x) = [strip x]" by (rule split_blank_single)
  moreover have "parse_block [] (strip x) = parse_block [] x"
    by (simp add: strip_def parse_block_rstrip parse_block_lstrip)
  ultimately show ?thesis by (simp add: 1 parse_content_def)
next
  case (2 x ms y)
  let ?bs' = "lstrip x # ms @ [rstrip y]"
  from 2 shape have x: "no_blank_line x" "\<exists>c \<in> set x. \<not> isspace c"
    and y: "no_blank_line y" "\<exists>c \<in> set y. \<not> isspace c"
    and ms: "\<forall>m \<in> set ms. no_blank_line m"
    by auto
  have "strip (join [NL, NL] bs) = join [NL, NL] ?bs'"
    unfolding 2 using x(2) y(2) by (rule strip_join_ends)
  moreover have "split [NL, NL] (join [NL, NL] ?bs') = ?bs'"
    using no_blank_line_lstrip [OF x(1)] no_blank_line_rstrip [OF y(1)] ms
    by (intro split_blank_join) auto
  ultimately have "parse_content (join [NL, NL] bs) = concat (map (parse_block []) ?bs')"
    by (simp add: parse_content_def foldl_parse_block)
  also have "\<dots> = concat (map (parse_block []) bs)"
    by (simp add: 2 parse_block_lstrip parse_block_rstrip)
  finally show ?thesis .
qed



section \<open>Well-formed input\<close>

lemma strip_padding:
  assumes pre: "\<forall>c \<in> set pre. isspace c" and post: "\<forall>c \<in> set post. isspace c"
  shows "strip (pre @ s @ post) = strip s"
proof -
  have l: "lstrip (pre @ s @ post) = lstrip (s @ post)"
    unfolding lstrip_def using pre by (intro dropWhile_append2) simp
  have "rstrip (s @ post) = rev (dropWhile isspace (rev post @ rev s))"
    by (simp add: rstrip_def)
  also have "\<dots> = rev (dropWhile isspace (rev s))"
    using post by (subst dropWhile_append2) simp_all
  finally have r: "rstrip (s @ post) = rstrip s" by (simp add: rstrip_def)
  have "strip (pre @ s @ post) = rstrip (lstrip (s @ post))"
    by (simp add: strip_def l)
  also have "\<dots> = lstrip (rstrip (s @ post))" by (simp add: lstrip_rstrip_commute)
  also have "\<dots> = lstrip (rstrip s)" by (simp add: r)
  also have "\<dots> = strip s" by (simp add: lstrip_rstrip_commute strip_def)
  finally show ?thesis .
qed

lemma parse_content_padding:
  "\<forall>c \<in> set pre. isspace c \<Longrightarrow> \<forall>c \<in> set post. isspace c
   \<Longrightarrow> parse_content (pre @ s @ post) = parse_content s"
  by (simp add: parse_content_def strip_padding)




section \<open>Blocks whose first line is not blank\<close>

lemma strip_NL_Cons: "strip (NL # s) = strip s"
  by (simp add: strip_def lstrip_def isspace_NL)

lemma parse_block_NL_Cons: "parse_block acc (NL # s) = parse_block acc s"
  by (simp add: parse_block_def strip_NL_Cons)

lemma strip_blank: "\<forall>c \<in> set y. isspace c \<Longrightarrow> strip y = []"
proof -
  assume "\<forall>c \<in> set y. isspace c"
  then have "lstrip y = []" by (simp add: lstrip_def)
  then show ?thesis by (simp add: strip_def rstrip_def)
qed

lemma join_snoc: "front \<noteq> [] \<Longrightarrow> join sep (front @ [y]) = join sep front @ sep @ y"
  by (induction front rule: induct_list012) simp_all

lemma parse_block_lines_ends:
  assumes ne: "ls \<noteq> []" and lines: "\<forall>l \<in> set ls. NL \<notin> set l"
    and first: "\<exists>c \<in> set (hd ls). \<not> isspace c" and final: "\<exists>c \<in> set (last ls). \<not> isspace c"
  shows "parse_block [] (join [NL] ls)
           = [(strip (ls ! 0), if 2 \<le> length ls then strip (ls ! 1) else [])]"
using ne
proof (cases ls rule: list_ends_cases)
  case (1 x)
  with lines have "NL \<notin> set (strip x)"
    using set_strip [of x] by auto
  then have "split [NL] (strip x) = [strip x]" by (rule split_NL_single)
  with 1 show ?thesis by (simp add: parse_block_def strip_idem)
next
  case (2 x ms y)
  let ?ls' = "lstrip x # ms @ [rstrip y]"
  from 2 first final have x: "\<exists>c \<in> set x. \<not> isspace c" and y: "\<exists>c \<in> set y. \<not> isspace c"
    by simp_all
  from 2 lines have nl: "NL \<notin> set x" "NL \<notin> set y" "\<forall>m \<in> set ms. NL \<notin> set m"
    by auto
  have "strip (join [NL] ls) = join [NL] ?ls'"
    unfolding 2 using x y by (rule strip_join_ends)
  moreover have "split [NL] (join [NL] ?ls') = ?ls'"
    using nl set_lstrip [of x] set_rstrip [of y]
    by (intro split_NL_join) auto
  ultimately have sp: "split [NL] (strip (join [NL] ls)) = ?ls'" by simp
  have one: "strip ((ms @ [rstrip y]) ! 0) = strip ((ms @ [y]) ! 0)"
    by (cases ms) (simp_all add: strip_rstrip)
  show ?thesis
    unfolding parse_block_def sp Let_def
    using one by (simp add: 2 strip_lstrip)
qed

lemma parse_block_blank_last:
  assumes "front \<noteq> []" and "\<forall>c \<in> set y. isspace c"
  shows "parse_block [] (join [NL] (front @ [y])) = parse_block [] (join [NL] front)"
proof -
  have "\<forall>c \<in> set (NL # y). isspace c" using assms(2) isspace_NL by simp
  then have "strip ([] @ join [NL] front @ NL # y) = strip (join [NL] front)"
    by (intro strip_padding) simp_all
  then show ?thesis
    using assms(1) by (simp add: parse_block_def join_snoc)
qed

lemma parse_block_first_nonblank:
  "ls \<noteq> [] \<Longrightarrow> \<forall>l \<in> set ls. NL \<notin> set l \<Longrightarrow> \<exists>c \<in> set (hd ls). \<not> isspace c
   \<Longrightarrow> parse_block [] (join [NL] ls)
         = [(strip (ls ! 0), if 2 \<le> length ls then strip (ls ! 1) else [])]"
proof (induction ls rule: rev_induct)
  case Nil
  then show ?case by simp
next
  case (snoc y front)
  show ?case
  proof (cases "front = [] \<or> (\<exists>c \<in> set y. \<not> isspace c)")
    case True
    then have "\<exists>c \<in> set (last (front @ [y])). \<not> isspace c"
      using snoc.prems(3) by auto
    with snoc.prems show ?thesis by (intro parse_block_lines_ends) simp_all
  next
    case False
    then have front: "front \<noteq> []" and blank: "\<forall>c \<in> set y. isspace c" by auto
    have "parse_block [] (join [NL] (front @ [y])) = parse_block [] (join [NL] front)"
      using front blank by (rule parse_block_blank_last)
    also have "\<dots> = [(strip (front ! 0), if 2 \<le> length front then strip (front ! 1) else [])]"
      using snoc.IH snoc.prems front by simp
    also have "\<dots> = [(strip ((front @ [y]) ! 0),
        if 2 \<le> length (front @ [y]) then strip ((front @ [y]) ! 1) else [])]"
    proof (cases "2 \<le> length front")
      case True
      then show ?thesis using front by (simp add: nth_append)
    next
      case False
      moreover have "0 < length front" using front by simp
      ultimately have "length front = 1" by linarith
      then show ?thesis using strip_blank [OF blank] by (simp add: nth_append)
    qed
    finally show ?thesis .
  qed
qed

lemma spaced_block_shape:
  assumes "b \<noteq> []" and "list_all block_line b" and "nonblank (hd b)"
  shows "no_blank_line (spaced_block (w, b)) \<and> (\<exists>c \<in> set (spaced_block (w, b)). \<not> isspace c)"
proof -
  from assms(2) have "\<forall>l \<in> set b. l \<noteq> [] \<and> NL \<notin> set l"
    by (simp add: list_all_iff block_line_def)
  with assms(1) have shape: "join [NL] b \<noteq> []" "hd (join [NL] b) \<noteq> NL" "no_blank_line (join [NL] b)"
    using join_lines_shape [of b] by simp_all
  then have "no_blank_line (NL # join [NL] b)"
    by (cases "join [NL] b") simp_all
  with shape(3) have one: "no_blank_line (spaced_block (w, b))"
    by (simp add: spaced_block_def)
  from assms(3) obtain c where "c \<in> set (hd b)" "\<not> isspace c"
    by (auto simp: nonblank_def)
  then have "\<exists>c \<in> set (join [NL] b). \<not> isspace c"
    using assms(1) set_join [of "hd b" b "[NL]"] by auto
  then have "\<exists>c \<in> set (spaced_block (w, b)). \<not> isspace c"
    by (auto simp: spaced_block_def)
  with one show ?thesis by simp
qed

lemma parse_block_spaced:
  "parse_block [] (spaced_block g) = parse_block [] (join [NL] (snd g))"
  by (simp add: spaced_block_def parse_block_NL_Cons)

lemma concat_parse_spaced_blocks:
  "\<forall>g \<in> set gs. snd g \<noteq> [] \<and> list_all block_line (snd g) \<and> nonblank (hd (snd g))
   \<Longrightarrow> concat (map (parse_block []) (map spaced_block gs))
         = map (\<lambda>g. (strip (snd g ! 0), if 2 \<le> length (snd g) then strip (snd g ! 1) else [])) gs"
proof (induction gs)
  case Nil
  show ?case by simp
next
  case (Cons g gs)
  then have "snd g \<noteq> []" "\<forall>l \<in> set (snd g). NL \<notin> set l" "\<exists>c \<in> set (hd (snd g)). \<not> isspace c"
    by (simp_all add: list_all_iff block_line_def nonblank_def)
  then have "parse_block [] (join [NL] (snd g))
      = [(strip (snd g ! 0), if 2 \<le> length (snd g) then strip (snd g ! 1) else [])]"
    by (rule parse_block_first_nonblank)
  with Cons show ?case by (simp add: parse_block_spaced)
qed

lemma parse_text_of_spaced_blocks:
  assumes "blocks_of_lines (map snd gs)"
  shows "parse_content (text_of_spaced_blocks gs)
           = map (\<lambda>g. (strip (snd g ! 0), if 2 \<le> length (snd g) then strip (snd g ! 1) else [])) gs"
proof -
  from assms have ne: "gs \<noteq> []"
    and each: "\<forall>g \<in> set gs. snd g \<noteq> [] \<and> list_all block_line (snd g) \<and> nonblank (hd (snd g))"
    by (simp_all add: blocks_of_lines_def list_all_iff)
  have "\<forall>p \<in> set (map spaced_block gs). no_blank_line p \<and> (\<exists>c \<in> set p. \<not> isspace c)"
  proof
    fix p assume "p \<in> set (map spaced_block gs)"
    then obtain g where g: "g \<in> set gs" "p = spaced_block g" by auto
    with each have "snd g \<noteq> []" "list_all block_line (snd g)" "nonblank (hd (snd g))" by auto
    then have "no_blank_line (spaced_block (fst g, snd g))
        \<and> (\<exists>c \<in> set (spaced_block (fst g, snd g)). \<not> isspace c)"
      by (rule spaced_block_shape)
    with g(2) show "no_blank_line p \<and> (\<exists>c \<in> set p. \<not> isspace c)" by simp
  qed
  with ne have "parse_content (text_of_spaced_blocks gs)
          = concat (map (parse_block []) (map spaced_block gs))"
    unfolding text_of_spaced_blocks_def by (intro parse_content_join) simp_all
  also have "\<dots> = map (\<lambda>g. (strip (snd g ! 0), if 2 \<le> length (snd g) then strip (snd g ! 1) else [])) gs"
    using each by (rule concat_parse_spaced_blocks)
  finally show ?thesis .
qed

lemma parse_content_blank_first_A:
  "parse_content (lit ''Q0\<newline>A0\<newline>\<newline> \<newline>Q\<newline>A'')
     = [(lit ''Q0'', lit ''A0''), (lit ''Q'', lit ''A'')]"
  by (simp add: parse_content_def parse_block_def lit_def strip_def lstrip_def rstrip_def
      NL_def isspace_def)


text \<open>
  Claim C1, for blocks whose first line is not blank. Take an input text that consists of
  \<open>N\<close> blocks, \<open>N\<close> at least 1, with one or two blank lines between two blocks, where
  every block has at least two lines, every line is not empty, and the first line of
  every block holds a code point that is not whitespace; whitespace (a final line feed,
  for one) may stand before and behind the text. Then \<open>parse_questions\<close> returns
  exactly \<open>N\<close> pairs in the order of the blocks, and the pair of a block is its first
  line and its second line, each without the whitespace at its ends.
\<close>

theorem parse_blocks_of_two_lines:
  assumes "blocks_of_lines (map snd gs)" and "\<forall>g \<in> set gs. 2 \<le> length (snd g)"
    and "\<forall>c \<in> set pre. isspace c" and "\<forall>c \<in> set post. isspace c"
  shows "parse_content (pre @ text_of_spaced_blocks gs @ post)
           = map (\<lambda>g. (strip (snd g ! 0), strip (snd g ! 1))) gs"
proof -
  have "parse_content (pre @ text_of_spaced_blocks gs @ post)
          = map (\<lambda>g. (strip (snd g ! 0), if 2 \<le> length (snd g) then strip (snd g ! 1) else [])) gs"
    using assms(1,3,4) by (simp add: parse_content_padding parse_text_of_spaced_blocks)
  also have "\<dots> = map (\<lambda>g. (strip (snd g ! 0), strip (snd g ! 1))) gs"
    using assms(2) by simp
  finally show ?thesis .
qed

theorem parse_blocks_of_two_lines_witness:
  "blocks_of_lines (map snd [(False, [lit ''Q1?'', lit '' A1 '']), (True, [lit ''Q2?'', lit '' '', lit ''more''])])
   \<and> list_all (\<lambda>g. 2 \<le> length (snd g))
        [(False, [lit ''Q1?'', lit '' A1 '']), (True, [lit ''Q2?'', lit '' '', lit ''more''])]
   \<and> list_all isspace (lit ''\<newline>'')
   \<and> parse_content (lit ''Q1?\<newline> A1 \<newline>\<newline>\<newline>Q2?\<newline> \<newline>more\<newline>'')
       = [(lit ''Q1?'', lit ''A1''), (lit ''Q2?'', [])]"
proof -
  let ?G = "[(False, [lit ''Q1?'', lit '' A1 '']), (True, [lit ''Q2?'', lit '' '', lit ''more''])]"
  have wf: "blocks_of_lines (map snd ?G)"
    by (simp add: blocks_of_lines_def block_line_def nonblank_def lit_def NL_def isspace_def)
  have two: "\<forall>g \<in> set ?G. 2 \<le> length (snd g)" by simp
  have pre: "\<forall>c \<in> set ([] :: str). isspace c" by simp
  have post: "\<forall>c \<in> set (lit ''\<newline>''). isspace c" by (simp add: lit_def isspace_def)
  have shown: "[] @ text_of_spaced_blocks ?G @ lit ''\<newline>''
      = lit ''Q1?\<newline> A1 \<newline>\<newline>\<newline>Q2?\<newline> \<newline>more\<newline>''"
    by (simp add: text_of_spaced_blocks_def spaced_block_def lit_def NL_def)
  have res: "map (\<lambda>g. (strip (snd g ! 0), strip (snd g ! 1))) ?G
      = [(lit ''Q1?'', lit ''A1''), (lit ''Q2?'', [])]"
    by (simp add: strip_def lstrip_def rstrip_def lit_def isspace_def)
  show ?thesis
    using parse_blocks_of_two_lines [OF wf two pre post] wf two post
    unfolding shown res by (simp add: list_all_iff)
qed

text \<open>
  Without the condition on the first line claim C1 fails. The text below has two blocks
  of two and of three lines, and the first line of the second block is a single space.
  \<open>block.strip()\<close> removes that line with the line feed behind it before the block
  is cut into lines, so the pair of the second block is made of its second and third
  line, and not of its first and second.
\<close>

theorem parse_blank_first_line_counterexample:
  "text_of_blocks [[lit ''Q0'', lit ''A0''], [lit '' '', lit ''Q'', lit ''A'']]
     = lit ''Q0\<newline>A0\<newline>\<newline> \<newline>Q\<newline>A''
   \<and> 2 \<le> length [lit ''Q0'', lit ''A0''] \<and> 2 \<le> length [lit '' '', lit ''Q'', lit ''A'']
   \<and> parse_content (lit ''Q0\<newline>A0\<newline>\<newline> \<newline>Q\<newline>A'')
       = [(lit ''Q0'', lit ''A0''), (lit ''Q'', lit ''A'')]
   \<and> parse_content (lit ''Q0\<newline>A0\<newline>\<newline> \<newline>Q\<newline>A'')
       \<noteq> [(strip (lit ''Q0''), strip (lit ''A0'')), (strip (lit '' ''), strip (lit ''Q''))]"
  by (simp add: parse_content_blank_first_A)
     (simp add: text_of_blocks_def lit_def NL_def strip_def lstrip_def rstrip_def isspace_def)




end
